theory Spec2Isabelle
  imports Complex_Main "HOL-Library.Word"
begin

unbundle bit_operations_syntax

section \<open>Duration estimator (\<open>getAudioDuration\<close>, App.tsx lines 184--229)\<close>

text \<open>
  The file's content is the list of its bytes; \<open>file.size\<close> and
  \<open>view.byteLength\<close> are both the length of that list.  \<open>DataView.getUint8\<close>
  throws a \<open>RangeError\<close> for an index outside the buffer, so every read is a value
  of \<open>error + byte\<close> and the function as a whole returns \<open>error + string\<close>.
\<close>

type_synonym byte = "8 word"

datatype error = RangeError

definition bindE :: "error + 'a \<Rightarrow> ('a \<Rightarrow> error + 'b) \<Rightarrow> error + 'b" where
  "bindE m f = (case m of Inl e \<Rightarrow> Inl e | Inr x \<Rightarrow> f x)"

definition getUint8 :: "byte list \<Rightarrow> int \<Rightarrow> error + byte" where
  "getUint8 view i =
     (if 0 \<le> i \<and> i < int (length view) then Inr (view ! nat i) else Inl RangeError)"

text \<open>
  JavaScript's \<open><<\<close> and \<open>|\<close> work on 32-bit signed integers: the result is
  wrapped into the range of \<open>int32\<close>.
\<close>

definition toInt32 :: "int \<Rightarrow> int" where
  "toInt32 x = signed_take_bit 31 x"

definition js_shl :: "int \<Rightarrow> nat \<Rightarrow> int" where
  "js_shl a n = toInt32 (push_bit (n mod 32) (toInt32 a))"

definition js_or :: "int \<Rightarrow> int \<Rightarrow> int" where
  "js_or a b = toInt32 (toInt32 a OR toInt32 b)"

text \<open>Lines 189--193: the three-byte tag test; \<open>&&\<close> stops at the first mismatch.\<close>

definition has_id3 :: "byte list \<Rightarrow> error + bool" where
  "has_id3 view =
     bindE (getUint8 view 0) (\<lambda>b0.
       if b0 \<noteq> 0x49 then Inr False
       else bindE (getUint8 view 1) (\<lambda>b1.
         if b1 \<noteq> 0x44 then Inr False
         else bindE (getUint8 view 2) (\<lambda>b2. Inr (b2 = 0x33))))"

text \<open>Lines 194--198: the size field, four bytes combined at strides of seven bits.\<close>

definition id3_size :: "byte \<Rightarrow> byte \<Rightarrow> byte \<Rightarrow> byte \<Rightarrow> int" where
  "id3_size b6 b7 b8 b9 =
     js_or (js_or (js_or (js_shl (uint b6) 21) (js_shl (uint b7) 14)) (js_shl (uint b8) 7))
       (uint b9)"

text \<open>Lines 187--200: the offset at which the frame scan starts.\<close>

definition start_offset :: "byte list \<Rightarrow> error + int" where
  "start_offset view =
     bindE (has_id3 view) (\<lambda>tagged.
       if tagged then
         bindE (getUint8 view 6) (\<lambda>b6.
         bindE (getUint8 view 7) (\<lambda>b7.
         bindE (getUint8 view 8) (\<lambda>b8.
         bindE (getUint8 view 9) (\<lambda>b9.
           Inr (id3_size b6 b7 b8 b9 + 10)))))
       else Inr 0)"

definition bitrates :: "nat list" where
  "bitrates = [0, 32, 40, 48, 56, 64, 80, 96, 112, 128, 160, 192, 224, 256, 320, 0]"

text \<open>
  Lines 208--213, run once a frame sync has been seen at \<open>offset\<close>: the value of
  \<open>durationSeconds\<close> at the \<open>break\<close>.  The division is the division of
  JavaScript numbers (binary64); it is modelled exactly, on rationals.
\<close>

definition frame_duration :: "byte list \<Rightarrow> int \<Rightarrow> error + rat" where
  "frame_duration view offset =
     bindE (getUint8 view (offset + 2)) (\<lambda>byte2.
       let bitrate = bitrates ! unat (drop_bit 4 byte2 AND 15)
       in if bitrate > 0
          then Inr (of_nat (length view * 8) / of_nat (bitrate * 1000))
          else Inr 0)"

text \<open>Lines 202--217: the \<open>while\<close> loop, returning the final \<open>durationSeconds\<close>.\<close>

function scan :: "byte list \<Rightarrow> int \<Rightarrow> error + rat" where
  "scan view offset =
     (if offset < int (length view) - 4 then
        (case getUint8 view offset of
           Inl e \<Rightarrow> Inl e
         | Inr b0 \<Rightarrow>
            if b0 = 0xFF then
              (case getUint8 view (offset + 1) of
                 Inl e \<Rightarrow> Inl e
               | Inr b1 \<Rightarrow>
                  if b1 AND 0xE0 = 0xE0 then frame_duration view offset
                  else scan view (offset + 1))
            else scan view (offset + 1))
      else Inr 0)"
  by pat_completeness auto
termination
  by (relation "measure (\<lambda>(view, offset). nat (int (length view) - 4 - offset))") auto

declare scan.simps [simp del]

text \<open>
  \<open>Number.prototype.toString\<close> on an integer (decimal digits, a minus sign for a
  negative one) and \<open>String.prototype.padStart\<close>.
\<close>

definition digit_char :: "nat \<Rightarrow> char" where
  "digit_char d = char_of (48 + d)"

function to_dec :: "nat \<Rightarrow> string" where
  "to_dec n = (if n < 10 then [digit_char n] else to_dec (n div 10) @ [digit_char (n mod 10)])"
  by pat_completeness auto
termination
  by (relation "measure id") auto

declare to_dec.simps [simp del]

definition toString :: "int \<Rightarrow> string" where
  "toString i = (if i < 0 then CHR ''-'' # to_dec (nat (- i)) else to_dec (nat i))"

definition padStart :: "nat \<Rightarrow> char \<Rightarrow> string \<Rightarrow> string" where
  "padStart n c s = replicate (n - length s) c @ s"

text \<open>The remainder operator \<open>%\<close> on numbers: the quotient is truncated towards zero.\<close>

definition js_rem :: "rat \<Rightarrow> rat \<Rightarrow> rat" where
  "js_rem a b = a - b * of_int (if a / b < 0 then \<lceil>a / b\<rceil> else \<lfloor>a / b\<rfloor>)"

text \<open>Lines 219--228.\<close>

definition format_duration :: "rat \<Rightarrow> string" where
  "format_duration durationSeconds =
     (let h = padStart 2 CHR ''0'' (toString \<lfloor>durationSeconds / 3600\<rfloor>);
          m = padStart 2 CHR ''0'' (toString \<lfloor>js_rem durationSeconds 3600 / 60\<rfloor>);
          s = padStart 2 CHR ''0'' (toString \<lfloor>js_rem durationSeconds 60\<rfloor>)
      in h @ '':'' @ m @ '':'' @ s)"

definition getAudioDuration :: "byte list \<Rightarrow> error + string" where
  "getAudioDuration file =
     bindE (start_offset file) (\<lambda>offset.
     bindE (scan file offset) (\<lambda>durationSeconds.
       Inr (format_duration durationSeconds)))"


text \<open>
  A frame sync at \<open>k\<close>, as the loop tests it (lines 205--206): the byte \<open>0xFF\<close>
  followed by a byte whose top three bits are set.
\<close>

definition frame_sync :: "byte list \<Rightarrow> int \<Rightarrow> bool" where
  "frame_sync view k \<longleftrightarrow> view ! nat k = 0xFF \<and> view ! nat (k + 1) AND 0xE0 = 0xE0"

text \<open>
  The size of the metadata header in the spec's words: each of the four bytes
  contributes its low seven bits, most significant byte first.
\<close>

definition synchsafe_spec :: "byte \<Rightarrow> byte \<Rightarrow> byte \<Rightarrow> byte \<Rightarrow> int" where
  "synchsafe_spec b6 b7 b8 b9 =
     take_bit 7 (uint b6) * 2 ^ 21 + take_bit 7 (uint b7) * 2 ^ 14 +
     take_bit 7 (uint b8) * 2 ^ 7 + take_bit 7 (uint b9)"

section \<open>Combiner session (\<open>combine\<close>, worker.ts lines 25--36)\<close>

text \<open>
  The mixing engine is a WebAssembly module outside this repository's sources.  Its
  \<open>combine\<close> returns a JavaScript object; the session inspects that object
  structurally.  An object is the map from its property names to their values, and
  reading an absent property gives \<open>undefined\<close>.
\<close>

datatype SingleAudioFileType = Wav | Mpeg | Ogg

datatype jsval = JUndefined | JBytes "byte list" | JFileType SingleAudioFileType
  | JString string | JNumber int

type_synonym jsobject = "string \<rightharpoonup> jsval"

definition has_property :: "string \<Rightarrow> jsobject \<Rightarrow> bool" where
  "has_property k obj \<longleftrightarrow> obj k \<noteq> None"

definition get_property :: "jsobject \<Rightarrow> string \<Rightarrow> jsval" where
  "get_property obj k = (case obj k of None \<Rightarrow> JUndefined | Some v \<Rightarrow> v)"

text \<open>
  The object \<open>{ bytes, type }\<close> that the session hands over, and that the player
  receives typed as \<open>{ bytes: Uint8Array; type: SingleAudioFileType }\<close>.
\<close>

record ('b, 't) audio_file =
  bytes :: 'b
  type :: 't

text \<open>
  The first argument is the engine's \<open>combiner.combine\<close>.  A \<open>throw\<close> is the left
  injection, carrying the thrown value (the engine's own result).
\<close>

definition combine ::
  "(byte list \<Rightarrow> jsobject) \<Rightarrow> byte list \<Rightarrow> jsobject + (jsval, jsval) audio_file" where
  "combine combiner_combine volumes =
     (let resultFile = combiner_combine volumes
      in if \<not> has_property ''bytes'' resultFile then Inl resultFile
         else Inr \<lparr>bytes = get_property resultFile ''bytes'',
                   type = get_property resultFile ''type''\<rparr>)"

section \<open>Swap scheduler (\<open>updateAudioSource\<close>, App.tsx lines 50--126)\<close>

text \<open>
  Object URLs are numbered in the order \<open>URL.createObjectURL\<close> hands them out: the
  URL \<open>n\<close> names the \<open>n\<close>-th blob created, so every call returns a fresh URL.
\<close>

type_synonym url = nat

record blob =
  parts :: "byte list"
  blob_type :: string

text \<open>
  An \<open>audio\<close> element, as far as the scheduler uses it.  An unset \<open>src\<close> (the empty
  string, falsy) is \<open>None\<close>.  The last field holds the listeners registered for
  \<open>canplaythrough\<close>: each is a \<open>handleReady\<close> closure, identified by the \<open>newUrl\<close>
  it has captured.
\<close>

record HTMLAudioElement =
  src :: "url option"
  currentTime :: rat
  paused :: bool
  canplaythrough :: "url list"

text \<open>
  The media element's \<open>load()\<close> resets the element: playback stops and the position
  returns to the start.  \<open>play()\<close> starts playback if the browser allows it; otherwise
  its promise is rejected and the element stays paused.
\<close>

definition load :: "HTMLAudioElement \<Rightarrow> HTMLAudioElement" where
  "load el = el\<lparr>currentTime := 0, paused := True\<rparr>"

definition play :: "bool \<Rightarrow> HTMLAudioElement \<Rightarrow> HTMLAudioElement" where
  "play allowed el = (if allowed then el\<lparr>paused := False\<rparr> else el)"

text \<open>
  The calls that reach the platform, in order: \<open>loaderAudio.load()\<close> with its new
  \<open>src\<close>, \<open>URL.revokeObjectURL\<close>, \<open>mainAudio.load()\<close> with its new \<open>src\<close>, and
  \<open>mainAudio.play()\<close> with its outcome.
\<close>

datatype call = LoaderLoad url | RevokeObjectURL url | MainLoad url | MainPlay bool

text \<open>
  The refs of the component and the platform state behind them.  The two \<open>audio\<close>
  elements are rendered unconditionally, so a ref is \<open>null\<close> only before the first
  commit and holds the same element ever after; the elements a \<open>handleReady\<close> closure
  has captured are the ones the refs hold.
\<close>

record scheduler =
  isSwappingRef :: bool
  pendingUpdateRef :: "(byte list, SingleAudioFileType) audio_file option"
  audioRef :: "HTMLAudioElement option"
  loaderRef :: "HTMLAudioElement option"
  objectURLs :: "blob list"
  calls :: "call list"

text \<open>Lines 70--84: the \<open>switch\<close>.  Its \<open>default\<close> branch is unreachable, the tag has three values.\<close>

definition audioType :: "SingleAudioFileType \<Rightarrow> string" where
  "audioType t = (case t of
                    Wav \<Rightarrow> ''audio/wav''
                  | Mpeg \<Rightarrow> ''audio/mpeg''
                  | Ogg \<Rightarrow> ''audio/ogg'')"

text \<open>
  Lines 58--126 without the body of \<open>handleReady\<close>, which only runs when the event
  fires.
\<close>

definition updateAudioSource ::
  "(byte list, SingleAudioFileType) audio_file \<Rightarrow> scheduler \<Rightarrow> scheduler" where
  "updateAudioSource file s =
     (if isSwappingRef s then s\<lparr>pendingUpdateRef := Some file\<rparr>
      else
        let s1 = s\<lparr>isSwappingRef := True\<rparr>;
            blob = \<lparr>parts = bytes file, blob_type = audioType (type file)\<rparr>;
            newUrl = length (objectURLs s1);
            s2 = s1\<lparr>objectURLs := objectURLs s1 @ [blob]\<rparr>
        in (case (audioRef s2, loaderRef s2) of
              (Some mainAudio, Some loaderAudio) \<Rightarrow>
                s2\<lparr>loaderRef :=
                      Some ((load (loaderAudio\<lparr>src := Some newUrl\<rparr>))
                        \<lparr>canplaythrough := canplaythrough loaderAudio @ [newUrl]\<rparr>),
                    calls := calls s2 @ [LoaderLoad newUrl]\<rparr>
            | _ \<Rightarrow> s2))"

text \<open>
  Lines 97--115, the first part of the closure \<open>handleReady\<close> that captured
  \<open>newUrl\<close>, \<open>mainAudio\<close> and \<open>loaderAudio\<close>: the playback state is read, the old
  resource released, the new one bound and loaded, the state restored, the flag
  cleared and the listener removed.  The second argument is the outcome of
  \<open>mainAudio.play()\<close>, should it be called; a rejection is caught and logged, nothing
  more.
\<close>

definition swap_live ::
  "url \<Rightarrow> bool \<Rightarrow> HTMLAudioElement \<Rightarrow> HTMLAudioElement \<Rightarrow> scheduler \<Rightarrow> scheduler" where
  "swap_live newUrl playAllowed mainAudio loaderAudio s =
     (let currentTime' = currentTime mainAudio;
          isPlaying = \<not> paused mainAudio;
          revoked = (case src mainAudio of
                       Some old \<Rightarrow> [RevokeObjectURL old]
                     | None \<Rightarrow> []);
          mainAudio1 = load (mainAudio\<lparr>src := Some newUrl\<rparr>);
          mainAudio2 = mainAudio1\<lparr>currentTime := currentTime'\<rparr>;
          mainAudio3 = (if isPlaying then play playAllowed mainAudio2 else mainAudio2);
          played = (if isPlaying then [MainPlay playAllowed] else [])
      in s\<lparr>audioRef := Some mainAudio3,
            calls := calls s @ revoked @ [MainLoad newUrl] @ played,
            isSwappingRef := False,
            loaderRef := Some (loaderAudio
              \<lparr>canplaythrough := removeAll newUrl (canplaythrough loaderAudio)\<rparr>)\<rparr>)"

text \<open>Lines 96--122: \<open>handleReady\<close>, with the check for a pending update at its end.\<close>

definition handleReady :: "url \<Rightarrow> bool \<Rightarrow> scheduler \<Rightarrow> scheduler" where
  "handleReady newUrl playAllowed s =
     (case (audioRef s, loaderRef s) of
        (Some mainAudio, Some loaderAudio) \<Rightarrow>
          let s1 = swap_live newUrl playAllowed mainAudio loaderAudio s
          in (case pendingUpdateRef s1 of
                Some nextFile \<Rightarrow> updateAudioSource nextFile (s1\<lparr>pendingUpdateRef := None\<rparr>)
              | None \<Rightarrow> s1)
      | _ \<Rightarrow> s)"

text \<open>
  The requests in flight are the registered closures.  When the loader fires
  \<open>canplaythrough\<close>, the listeners registered at that moment run in order; one removed
  meanwhile is skipped, one added meanwhile waits for the next event.
\<close>

definition in_flight :: "scheduler \<Rightarrow> url list" where
  "in_flight s = (case loaderRef s of Some loaderAudio \<Rightarrow> canplaythrough loaderAudio | None \<Rightarrow> [])"

definition dispatch_canplaythrough :: "bool \<Rightarrow> scheduler \<Rightarrow> scheduler" where
  "dispatch_canplaythrough playAllowed s =
     fold (\<lambda>newUrl s'. if newUrl \<in> set (in_flight s') then handleReady newUrl playAllowed s' else s')
       (in_flight s) s"

text \<open>
  What can happen to the scheduler: a result is presented, the loader reports enough
  buffered data, or the visible player's position and play state change (the user's
  controls, playback itself).
\<close>

datatype event =
    Present "(byte list, SingleAudioFileType) audio_file"
  | CanPlayThrough bool
  | Controls rat bool

fun step :: "event \<Rightarrow> scheduler \<Rightarrow> scheduler" where
  "step (Present file) s = updateAudioSource file s"
| "step (CanPlayThrough playAllowed) s = dispatch_canplaythrough playAllowed s"
| "step (Controls t p) s =
     s\<lparr>audioRef := map_option (\<lambda>mainAudio. mainAudio\<lparr>currentTime := t, paused := p\<rparr>) (audioRef s)\<rparr>"

definition run :: "event list \<Rightarrow> scheduler \<Rightarrow> scheduler" where
  "run es s = fold step es s"

text \<open>The component after its first commit: both elements mounted, nothing loaded.\<close>

definition fresh_audio :: HTMLAudioElement where
  "fresh_audio = \<lparr>src = None, currentTime = 0, paused = True, canplaythrough = []\<rparr>"

definition mounted :: scheduler where
  "mounted = \<lparr>isSwappingRef = False, pendingUpdateRef = None,
     audioRef = Some fresh_audio, loaderRef = Some fresh_audio,
     objectURLs = [], calls = []\<rparr>"

text \<open>Reading the log: the resources made live, and the resources released.\<close>

fun live_swaps :: "call list \<Rightarrow> url list" where
  "live_swaps [] = []"
| "live_swaps (MainLoad u # cs) = u # live_swaps cs"
| "live_swaps (c # cs) = live_swaps cs"

fun released :: "call list \<Rightarrow> url list" where
  "released [] = []"
| "released (RevokeObjectURL u # cs) = u # released cs"
| "released (c # cs) = released cs"

text \<open>
  A log in which every release is that of the live resource and is followed at once by
  the binding of its successor, and every binding but the first follows such a release.
  The first argument is the resource live before the log starts.
\<close>

fun released_at_swap :: "url option \<Rightarrow> call list \<Rightarrow> bool" where
  "released_at_swap live [] = True"
| "released_at_swap live (RevokeObjectURL u # MainLoad v # cs) =
     (live = Some u \<and> released_at_swap (Some v) cs)"
| "released_at_swap live (RevokeObjectURL u # cs) = False"
| "released_at_swap live (MainLoad v # cs) = (live = None \<and> released_at_swap (Some v) cs)"
| "released_at_swap live (c # cs) = released_at_swap live cs"

text \<open>
  The calls one run of \<open>swap_live\<close> adds, given the resource live before, the new URL,
  whether the player was paused, and the outcome of \<open>play()\<close>.
\<close>

definition swap_calls :: "url option \<Rightarrow> url \<Rightarrow> bool \<Rightarrow> bool \<Rightarrow> call list" where
  "swap_calls live u p a =
     (case live of Some old \<Rightarrow> [RevokeObjectURL old] | None \<Rightarrow> [])
       @ [MainLoad u] @ (if p then [] else [MainPlay a])"

text \<open>The resource live after a log, given the one live before it.\<close>

definition live_now :: "url option \<Rightarrow> call list \<Rightarrow> url option" where
  "live_now live cs = (if live_swaps cs = [] then live else Some (last (live_swaps cs)))"

text \<open>
  The invariant of the scheduler's state machine: both elements are mounted and the
  visible player holds the resource bound last; at most one request is in flight, and
  one is exactly when \<open>isSwappingRef\<close> is set; a pending result waits only behind a
  request in flight; a URL in flight was created after every URL that has been live;
  the resources were made live in the order of their creation, none twice; all
  resources made live but the last have been released, each at the swap that
  superseded it.
\<close>

definition sched_inv :: "scheduler \<Rightarrow> bool" where
  "sched_inv s \<longleftrightarrow>
     (\<exists>mainAudio loaderAudio. audioRef s = Some mainAudio \<and> loaderRef s = Some loaderAudio
        \<and> src mainAudio = live_now None (calls s))
     \<and> length (in_flight s) \<le> 1
     \<and> (isSwappingRef s \<longleftrightarrow> in_flight s \<noteq> [])
     \<and> (pendingUpdateRef s \<noteq> None \<longrightarrow> isSwappingRef s)
     \<and> (\<forall>u \<in> set (in_flight s).
          (\<forall>v \<in> set (live_swaps (calls s)). v < u) \<and> u < length (objectURLs s))
     \<and> (\<forall>u \<in> set (live_swaps (calls s)). u < length (objectURLs s))
     \<and> sorted_wrt (<) (live_swaps (calls s))
     \<and> released (calls s) = butlast (live_swaps (calls s))
     \<and> released_at_swap None (calls s)"

text \<open>
  Events that only move the visible player's position or toggle its play state, and
  whether the visible player is paused.
\<close>

fun controls_only :: "event list \<Rightarrow> bool" where
  "controls_only [] = True"
| "controls_only (Controls t p # es) = controls_only es"
| "controls_only (e # es) = False"

definition main_paused :: "scheduler \<Rightarrow> bool" where
  "main_paused s = (case audioRef s of Some mainAudio \<Rightarrow> paused mainAudio | None \<Rightarrow> True)"

section \<open>Preview orchestrator (\<open>updateVolume\<close> and \<open>reset\<close>, App.tsx lines 169--235)\<close>

text \<open>
  The interface \<open>AudioFile\<close>; its field \<open>id\<close> is \<open>file_id\<close> here.  \<open>files\<close> below is
  the track list as the handlers' closures see it, the state of the latest render.
\<close>

record AudioFile =
  file_id :: string
  name :: string
  duration :: string
  volume :: int

text \<open>
  The session is a proxy to an object in the worker; what the component does with it is
  the sequence of calls it sends: \<open>combine(volumes)\<close> and \<open>free()\<close>.
\<close>

datatype worker_call = Combine nat "byte list" | Free nat

record app =
  files :: "AudioFile list"
  audioCombinerRef :: "nat option"
  fileInputRef :: "string option"
  player :: scheduler
  worker_calls :: "worker_call list"

text \<open>
  Lines 169--182 up to the \<open>await\<close>, for the track id \<open>i\<close> and the new value \<open>v\<close>:
  the track list is updated and, with a session, \<open>combine\<close> is called with the
  volumes as a \<open>Uint8Array\<close>.  When that call's promise resolves, the rest of the
  function runs: \<open>updateVolume_resumed\<close>; when it rejects, nothing more happens.
\<close>

definition updateVolume :: "string \<Rightarrow> int \<Rightarrow> app \<Rightarrow> app" where
  "updateVolume i v s =
     (let updatedFiles = map (\<lambda>f. if file_id f = i then f\<lparr>volume := v\<rparr> else f) (files s);
          s1 = s\<lparr>files := updatedFiles\<rparr>
      in case audioCombinerRef s1 of
           Some combiner \<Rightarrow>
             s1\<lparr>worker_calls := worker_calls s1 @
                  [Combine combiner (map (\<lambda>f. word_of_int (volume f)) updatedFiles)]\<rparr>
         | None \<Rightarrow> s1)"

definition updateVolume_resumed ::
  "(byte list, SingleAudioFileType) audio_file \<Rightarrow> app \<Rightarrow> app" where
  "updateVolume_resumed combinedFile s = s\<lparr>player := updateAudioSource combinedFile (player s)\<rparr>"

text \<open>Lines 231--235.\<close>

definition reset :: "app \<Rightarrow> app" where
  "reset s = s\<lparr>files := [], audioCombinerRef := None,
     fileInputRef := map_option (\<lambda>_. '''') (fileInputRef s)\<rparr>"

section \<open>Properties of the duration estimator\<close>

subsection \<open>The size field\<close>

lemma toInt32_id: "0 \<le> x \<Longrightarrow> x < 2 ^ 29 \<Longrightarrow> toInt32 x = x"
  unfolding toInt32_def by (rule signed_take_bit_int_eq_self) simp_all

lemma push_or_add:
  fixes x y :: int
  assumes "0 \<le> y" "y < 2 ^ n"
  shows "push_bit n x OR y = push_bit n x + y"
proof -
  have y: "take_bit n y = y" using assms by (simp add: take_bit_int_eq_self)
  have "push_bit n x AND take_bit n y = 0"
    by (rule bit_eqI) (auto simp add: bit_simps)
  then have "push_bit n x AND y = 0" by (simp add: y)
  then show ?thesis by (simp add: disjunctive_add_eq_or)
qed

lemma uint_byte_bounds: "0 \<le> uint (b::byte)" "uint (b::byte) < 256"
  using uint_bounded [of b] by simp_all

lemma push_byte_bound:
  "0 \<le> push_bit 21 (uint (b::byte)) \<and> push_bit 21 (uint b) < 2 ^ 29"
  "0 \<le> push_bit 14 (uint (b::byte)) \<and> push_bit 14 (uint b) < 2 ^ 29"
  "0 \<le> push_bit 7 (uint (b::byte)) \<and> push_bit 7 (uint b) < 2 ^ 29"
  "0 \<le> uint (b::byte) \<and> uint b < 2 ^ 29"
  using uint_byte_bounds [of b] by (simp_all add: push_bit_eq_mult)

lemma shl_byte:
  "js_shl (uint (b::byte)) 21 = push_bit 21 (uint b)"
  "js_shl (uint (b::byte)) 14 = push_bit 14 (uint b)"
  "js_shl (uint (b::byte)) 7 = push_bit 7 (uint b)"
  using push_byte_bound [of b] by (simp_all add: js_shl_def toInt32_id)

lemma js_or_small:
  assumes "0 \<le> a \<and> a < 2 ^ 29" "0 \<le> b \<and> b < 2 ^ 29"
  shows "js_or a b = a OR b" "0 \<le> a OR b \<and> a OR b < 2 ^ 29"
proof -
  have lt: "a OR b < 2 ^ 29" using assms by (intro OR_upper) simp_all
  then show nn: "0 \<le> a OR b \<and> a OR b < 2 ^ 29" using assms by simp
  then show "js_or a b = a OR b" using assms by (simp add: js_or_def toInt32_id)
qed

text \<open>No 32-bit wrap-around happens: the four shifted bytes stay below \<open>2 ^ 29\<close>.\<close>

lemma id3_size_or:
  "id3_size b6 b7 b8 b9 =
     push_bit 21 (uint b6) OR push_bit 14 (uint b7) OR push_bit 7 (uint b8) OR uint b9"
proof -
  note o1 = js_or_small [OF push_byte_bound(1) [of b6] push_byte_bound(2) [of b7]]
  note o2 = js_or_small [OF o1(2) push_byte_bound(3) [of b8]]
  note o3 = js_or_small [OF o2(2) push_byte_bound(4) [of b9]]
  show ?thesis
    unfolding id3_size_def shl_byte o1(1) o2(1) o3(1) by (simp add: or.assoc)
qed

lemma id3_size_nonneg: "0 \<le> id3_size b6 b7 b8 b9"
  unfolding id3_size_or by simp

lemma id3_size_sum:
  assumes "b6 < 0x80" "b7 < 0x80" "b8 < 0x80" "b9 < 0x80"
  shows "id3_size b6 b7 b8 b9 =
     uint b6 * 2 ^ 21 + uint b7 * 2 ^ 14 + uint b8 * 2 ^ 7 + uint b9"
proof -
  have u: "uint b6 < 128" "uint b7 < 128" "uint b8 < 128" "uint b9 < 128"
    using assms by (simp_all add: word_less_def)
  have "id3_size b6 b7 b8 b9 =
      push_bit 7 (push_bit 7 (push_bit 7 (uint b6) OR uint b7) OR uint b8) OR uint b9"
    unfolding id3_size_or by (simp add: or.assoc)
  also have "\<dots> = push_bit 7 (push_bit 7 (push_bit 7 (uint b6) + uint b7) + uint b8) + uint b9"
    using u by (simp add: push_or_add)
  also have "\<dots> = uint b6 * 2 ^ 21 + uint b7 * 2 ^ 14 + uint b8 * 2 ^ 7 + uint b9"
    by (simp add: push_bit_eq_mult algebra_simps)
  finally show ?thesis .
qed

lemma synchsafe_spec_low:
  assumes "b6 < 0x80" "b7 < 0x80" "b8 < 0x80" "b9 < 0x80"
  shows "synchsafe_spec b6 b7 b8 b9 =
     uint b6 * 2 ^ 21 + uint b7 * 2 ^ 14 + uint b8 * 2 ^ 7 + uint b9"
proof -
  have u: "uint b6 < 128" "uint b7 < 128" "uint b8 < 128" "uint b9 < 128"
    using assms by (simp_all add: word_less_def)
  then show ?thesis by (simp add: synchsafe_spec_def take_bit_int_eq_self)
qed

lemma has_id3_long:
  assumes "3 \<le> length view"
  shows "has_id3 view = Inr (view ! 0 = 0x49 \<and> view ! 1 = 0x44 \<and> view ! 2 = 0x33)"
proof -
  have "view \<noteq> []" using assms by auto
  with assms show ?thesis by (simp add: has_id3_def getUint8_def bindE_def)
qed

lemma start_offset_tagged:
  assumes "10 \<le> length view" "view ! 0 = 0x49" "view ! 1 = 0x44" "view ! 2 = 0x33"
  shows "start_offset view =
     Inr (id3_size (view ! 6) (view ! 7) (view ! 8) (view ! 9) + 10)"
  using assms by (simp add: start_offset_def has_id3_long) (simp add: getUint8_def bindE_def)

lemma start_offset_nonneg:
  assumes "start_offset view = Inr off"
  shows "0 \<le> off"
proof -
  have "0 \<le> id3_size b6 b7 b8 b9 + 10" for b6 b7 b8 b9
    using id3_size_nonneg [of b6 b7 b8 b9] by simp
  with assms show ?thesis
    by (auto simp add: start_offset_def bindE_def split: sum.splits if_splits)
qed

subsection \<open>The scan\<close>

lemma scan_step_sync:
  assumes "0 \<le> k" "k < int (length view) - 4" "frame_sync view k"
  shows "scan view k = frame_duration view k"
  using assms by (subst scan.simps) (simp add: getUint8_def frame_sync_def)

lemma scan_step_skip:
  assumes "0 \<le> k" "k < int (length view) - 4" "\<not> frame_sync view k"
  shows "scan view k = scan view (k + 1)"
  using assms by (subst scan.simps) (auto simp add: getUint8_def frame_sync_def)

lemma scan_first_sync:
  assumes "0 \<le> off" "off \<le> k" "k < int (length view) - 4" "frame_sync view k"
    and "\<forall>j. off \<le> j \<and> j < k \<longrightarrow> \<not> frame_sync view j"
  shows "scan view off = frame_duration view k"
  using assms
proof (induction "nat (k - off)" arbitrary: off)
  case 0
  then have "off = k" by simp
  with 0 show ?case by (simp add: scan_step_sync)
next
  case (Suc n)
  then have lt: "off < k" by linarith
  with Suc.prems have "\<not> frame_sync view off" by simp
  with Suc.prems lt have "scan view off = scan view (off + 1)"
    by (intro scan_step_skip) simp_all
  also have "\<dots> = frame_duration view k"
  proof (rule Suc.hyps(1))
    show "n = nat (k - (off + 1))" using Suc.hyps(2) by linarith
    show "\<forall>j. off + 1 \<le> j \<and> j < k \<longrightarrow> \<not> frame_sync view j" using Suc.prems(5) by simp
  qed (use Suc.prems lt in simp_all)
  finally show ?case .
qed

lemma frame_duration_in_range:
  assumes "0 \<le> k" "k < int (length view) - 4"
  shows "frame_duration view k =
     (let bitrate = bitrates ! unat (drop_bit 4 (view ! nat (k + 2)) AND 15)
      in if bitrate > 0 then Inr (of_nat (length view * 8) / of_nat (bitrate * 1000))
         else Inr 0)"
  using assms by (simp add: frame_duration_def getUint8_def bindE_def)

text \<open>From a non-negative offset the loop reads inside the buffer only.\<close>

lemma scan_returns:
  assumes "0 \<le> off"
  shows "\<exists>d. scan view off = Inr d"
  using assms
proof (induction "nat (int (length view) - 4 - off)" arbitrary: off rule: less_induct)
  case less
  show ?case
  proof (cases "off < int (length view) - 4")
    case False
    then show ?thesis by (subst scan.simps) simp
  next
    case True
    show ?thesis
    proof (cases "frame_sync view off")
      case sync: True
      have "\<exists>d. frame_duration view off = Inr d"
        using True less.prems by (simp add: frame_duration_in_range Let_def)
      then show ?thesis using True less.prems sync by (simp add: scan_step_sync)
    next
      case nosync: False
      have "\<exists>d. scan view (off + 1) = Inr d"
        using True less.prems by (intro less.hyps) simp_all
      then show ?thesis using True less.prems nosync by (simp add: scan_step_skip)
    qed
  qed
qed

lemma scan_no_sync:
  assumes "0 \<le> off"
    and "\<forall>j. off \<le> j \<and> j < int (length view) - 4 \<longrightarrow> \<not> frame_sync view j"
  shows "scan view off = Inr 0"
  using assms
proof (induction "nat (int (length view) - 4 - off)" arbitrary: off rule: less_induct)
  case less
  show ?case
  proof (cases "off < int (length view) - 4")
    case False
    then show ?thesis by (subst scan.simps) simp
  next
    case True
    with less.prems have "\<not> frame_sync view off" by simp
    with True less.prems have "scan view off = scan view (off + 1)"
      by (intro scan_step_skip) simp_all
    also have "\<dots> = Inr 0"
      using True less.prems by (intro less.hyps) simp_all
    finally show ?thesis .
  qed
qed

lemma format_duration_zero: "format_duration 0 = ''00:00:00''"
  by code_simp

lemma format_duration_625: "format_duration 625 = ''00:10:25''"
  by code_simp

text \<open>
  What the estimator does guarantee: a buffer of ten bytes or more always gets a
  duration string, and it is the zero duration when the scan meets no frame sync or
  the first one carries an invalid bitrate index (0 or 15).
\<close>

lemma getAudioDuration_returns:
  assumes "10 \<le> length file"
  shows "\<exists>str. getAudioDuration file = Inr str"
proof -
  have "\<exists>off. start_offset file = Inr off"
    using assms by (simp add: start_offset_def has_id3_long) (simp add: getUint8_def bindE_def)
  then obtain off where off: "start_offset file = Inr off" ..
  then have "0 \<le> off" by (rule start_offset_nonneg)
  then obtain d where "scan file off = Inr d" using scan_returns by blast
  with off show ?thesis by (simp add: getAudioDuration_def bindE_def)
qed

lemma getAudioDuration_no_sync:
  assumes "start_offset file = Inr off"
    and "\<forall>j. off \<le> j \<and> j < int (length file) - 4 \<longrightarrow> \<not> frame_sync file j"
  shows "getAudioDuration file = Inr ''00:00:00''"
proof -
  have "0 \<le> off" using assms(1) by (rule start_offset_nonneg)
  then have "scan file off = Inr 0" using assms(2) by (rule scan_no_sync)
  with assms(1) show ?thesis
    by (simp add: getAudioDuration_def bindE_def format_duration_zero)
qed

lemma getAudioDuration_invalid_bitrate:
  assumes "start_offset file = Inr off"
    and "off \<le> k" and "k < int (length file) - 4"
    and "frame_sync file k"
    and "\<forall>j. off \<le> j \<and> j < k \<longrightarrow> \<not> frame_sync file j"
    and "unat (drop_bit 4 (file ! nat (k + 2)) AND 15) = 0
       \<or> unat (drop_bit 4 (file ! nat (k + 2)) AND 15) = 15"
  shows "getAudioDuration file = Inr ''00:00:00''"
proof -
  have off: "0 \<le> off" using assms(1) by (rule start_offset_nonneg)
  then have k: "0 \<le> k" using assms(2) by simp
  have "bitrates ! 0 = 0" "bitrates ! 15 = 0" by (simp_all add: bitrates_def)
  with assms(6) have "bitrates ! unat (drop_bit 4 (file ! nat (k + 2)) AND 15) = 0" by auto
  then have "frame_duration file k = Inr 0"
    using k assms(3) by (simp add: frame_duration_in_range)
  moreover have "scan file off = frame_duration file k"
    using off assms(2-5) by (rule scan_first_sync)
  ultimately show ?thesis
    by (simp add: getAudioDuration_def assms(1) bindE_def format_duration_zero)
qed

subsection \<open>Claims about the estimator\<close>

text \<open>
  C5.  The claim: for every byte buffer, the empty one included, the estimator returns a
  duration string and never raises.  The code reads byte 0 before any length check, so
  on the empty buffer \<open>view.getUint8(0)\<close> throws a \<open>RangeError\<close> and no string is
  returned.  (The loop, by contrast, bounds its reads by \<open>view.byteLength - 4\<close>; see
  \<open>getAudioDuration_returns\<close>, \<open>getAudioDuration_no_sync\<close> and
  \<open>getAudioDuration_invalid_bitrate\<close> for what holds from ten bytes on.)
\<close>

theorem getAudioDuration_empty_raises: "getAudioDuration [] = Inl RangeError"
  by (simp add: getAudioDuration_def start_offset_def has_id3_def getUint8_def bindE_def)

text \<open>
  C6.  For a file of 10 000 000 bytes whose first frame sync at or after the scan's start
  carries the bitrate index of 128 kbps (index 9), the loop leaves
  \<open>durationSeconds = size * 8 / (128 * 1000) = 625\<close>, computed from that first frame
  alone, and the estimator returns \<open>00:10:25\<close>.
\<close>

theorem getAudioDuration_10MB_128kbps:
  assumes "length file = 10000000"
    and "start_offset file = Inr off"
    and "off \<le> k" and "k < int (length file) - 4"
    and "frame_sync file k"
    and "\<forall>j. off \<le> j \<and> j < k \<longrightarrow> \<not> frame_sync file j"
    and "unat (drop_bit 4 (file ! nat (k + 2)) AND 15) = 9"
  shows "bitrates ! 9 = 128
    \<and> scan file off = Inr (of_nat (length file * 8) / of_nat (128 * 1000))
    \<and> scan file off = Inr 625
    \<and> getAudioDuration file = Inr ''00:10:25''"
proof -
  have br: "bitrates ! 9 = 128" by (simp add: bitrates_def)
  have off: "0 \<le> off" using assms(2) by (rule start_offset_nonneg)
  then have k: "0 \<le> k" using assms(3) by simp
  have "scan file off = frame_duration file k"
    using off assms(3-6) by (rule scan_first_sync)
  also have "\<dots> = Inr (of_nat (length file * 8) / of_nat (128 * 1000))"
    using k assms(4,7) by (simp add: frame_duration_in_range br)
  finally have sc: "scan file off = Inr (of_nat (length file * 8) / of_nat (128 * 1000))" .
  then have sc625: "scan file off = Inr 625" by (simp add: assms(1))
  have "getAudioDuration file = Inr ''00:10:25''"
    by (simp add: getAudioDuration_def assms(2) sc625 bindE_def format_duration_625)
  with br sc sc625 show ?thesis by simp
qed

theorem getAudioDuration_10MB_128kbps_witness:
  "length ([0xFF, 0xFB, 0x90, 0x00] @ replicate 9999996 (0::byte)) = 10000000
   \<and> frame_sync ([0xFF, 0xFB, 0x90, 0x00] @ replicate 9999996 0) 0
   \<and> getAudioDuration ([0xFF, 0xFB, 0x90, 0x00] @ replicate 9999996 0) = Inr ''00:10:25''"
proof -
  let ?file = "[0xFF, 0xFB, 0x90, 0x00] @ replicate 9999996 (0::byte)"
  have len: "length ?file = 10000000" by simp
  have off: "start_offset ?file = Inr 0"
    by (simp add: start_offset_def has_id3_def getUint8_def bindE_def)
  have sync: "frame_sync ?file 0" by (simp add: frame_sync_def)
  have idx: "unat (drop_bit 4 (?file ! nat (0 + 2)) AND 15) = 9" by simp
  have first: "\<forall>j. (0::int) \<le> j \<and> j < 0 \<longrightarrow> \<not> frame_sync ?file j" by auto
  have "getAudioDuration ?file = Inr ''00:10:25''"
    using getAudioDuration_10MB_128kbps [of ?file 0 0, OF len off _ _ sync first idx] by simp
  with len sync show ?thesis by simp
qed

text \<open>
  C7.  The claim: for every buffer that begins with \<open>49 44 33\<close> the scan starts at
  \<open>size + 10\<close>, where each of the bytes 6--9 contributes only its low seven bits.
  The code does not mask the bytes: it combines the whole bytes with \<open>|\<close> at strides
  of seven bits, so a set bit 7 spills into the next group.  With size bytes
  \<open>00 00 00 80\<close> the scan starts at 138, not at 10.  (A tagged buffer shorter than ten
  bytes has no bytes 6--9 at all; the read raises.)
\<close>

theorem start_offset_unmasked_counterexample:
  "start_offset [0x49, 0x44, 0x33, 3, 0, 0, 0, 0, 0, 0x80] = Inr 138
   \<and> synchsafe_spec 0 0 0 0x80 + 10 = 10
   \<and> start_offset [0x49, 0x44, 0x33] = Inl RangeError"
  by (simp add: start_offset_def has_id3_def getUint8_def bindE_def id3_size_def
      js_or_def js_shl_def toInt32_def synchsafe_spec_def)

text \<open>
  C7, amended.  For every buffer of at least ten bytes that begins with \<open>49 44 33\<close>,
  the size is the bitwise OR of the bytes 6--9 shifted left by 21, 14, 7 and 0 bits
  (no 32-bit wrap-around occurs), and the scan starts at \<open>size + 10\<close>.  When bit 7 of
  each of the four bytes is clear, that size is the synch-safe size of the spec; size
  bytes \<open>00 00 00 00\<close> start the scan at offset 10.
\<close>

theorem start_offset_id3:
  assumes "10 \<le> length view"
    and "view ! 0 = 0x49" and "view ! 1 = 0x44" and "view ! 2 = 0x33"
  shows "start_offset view =
      Inr ((push_bit 21 (uint (view ! 6)) OR push_bit 14 (uint (view ! 7)) OR
            push_bit 7 (uint (view ! 8)) OR uint (view ! 9)) + 10)
    \<and> getAudioDuration view =
      bindE (scan view (id3_size (view ! 6) (view ! 7) (view ! 8) (view ! 9) + 10))
        (\<lambda>durationSeconds. Inr (format_duration durationSeconds))
    \<and> (view ! 6 < 0x80 \<and> view ! 7 < 0x80 \<and> view ! 8 < 0x80 \<and> view ! 9 < 0x80 \<longrightarrow>
      start_offset view =
        Inr (synchsafe_spec (view ! 6) (view ! 7) (view ! 8) (view ! 9) + 10))
    \<and> (view ! 6 = 0 \<and> view ! 7 = 0 \<and> view ! 8 = 0 \<and> view ! 9 = 0 \<longrightarrow>
      start_offset view = Inr 10)"
proof -
  note so = start_offset_tagged [OF assms]
  have "start_offset view =
      Inr ((push_bit 21 (uint (view ! 6)) OR push_bit 14 (uint (view ! 7)) OR
            push_bit 7 (uint (view ! 8)) OR uint (view ! 9)) + 10)"
    unfolding so id3_size_or by (simp add: or.assoc)
  moreover have "getAudioDuration view =
      bindE (scan view (id3_size (view ! 6) (view ! 7) (view ! 8) (view ! 9) + 10))
        (\<lambda>durationSeconds. Inr (format_duration durationSeconds))"
    by (simp add: getAudioDuration_def so bindE_def)
  moreover have "view ! 6 < 0x80 \<and> view ! 7 < 0x80 \<and> view ! 8 < 0x80 \<and> view ! 9 < 0x80 \<longrightarrow>
      start_offset view =
        Inr (synchsafe_spec (view ! 6) (view ! 7) (view ! 8) (view ! 9) + 10)"
    by (simp add: so id3_size_sum synchsafe_spec_low)
  moreover have "view ! 6 = 0 \<and> view ! 7 = 0 \<and> view ! 8 = 0 \<and> view ! 9 = 0 \<longrightarrow>
      start_offset view = Inr 10"
    by (simp add: so id3_size_sum)
  ultimately show ?thesis by blast
qed

theorem start_offset_id3_witness:
  "start_offset [0x49, 0x44, 0x33, 3, 0, 0, 0, 0, 0, 0, 0xFF, 0xFB, 0x90, 0, 0, 0, 0] = Inr 10
   \<and> start_offset [0x49, 0x44, 0x33, 3, 0, 0, 0, 0, 0x02, 0x01] = Inr 267
   \<and> synchsafe_spec 0 0 0x02 0x01 + 10 = 267"
proof -
  let ?v = "[0x49, 0x44, 0x33, 3, 0, 0, 0, 0, 0, 0, 0xFF, 0xFB, 0x90, 0, 0, 0, 0] :: byte list"
  let ?w = "[0x49, 0x44, 0x33, 3, 0, 0, 0, 0, 0x02, 0x01] :: byte list"
  have "start_offset ?v = Inr 10"
    using start_offset_id3 [of ?v] by simp
  moreover have "start_offset ?w = Inr (synchsafe_spec 0 0 0x02 0x01 + 10)"
    using start_offset_id3 [of ?w] by (simp add: synchsafe_spec_def)
  moreover have "synchsafe_spec 0 0 0x02 0x01 + 10 = 267"
    by (simp add: synchsafe_spec_def)
  ultimately show ?thesis by simp
qed

section \<open>Properties of the swap scheduler\<close>

subsection \<open>Reading the log\<close>

lemma live_swaps_append: "live_swaps (cs @ ds) = live_swaps cs @ live_swaps ds"
  by (induction cs rule: live_swaps.induct) simp_all

lemma released_append: "released (cs @ ds) = released cs @ released ds"
  by (induction cs rule: released.induct) simp_all

lemma live_now_append: "live_now live (cs @ ds) = live_now (live_now live cs) ds"
  by (simp add: live_now_def live_swaps_append)

lemma released_at_swap_append:
  "released_at_swap live cs \<Longrightarrow> released_at_swap (live_now live cs) ds
     \<Longrightarrow> released_at_swap live (cs @ ds)"
  by (induction live cs rule: released_at_swap.induct)
     (auto simp add: live_now_def split: if_splits)

lemma released_at_swap_snoc:
  "released_at_swap live cs \<Longrightarrow> released_at_swap live (cs @ [LoaderLoad u])"
  "released_at_swap live cs \<Longrightarrow> released_at_swap live (cs @ [MainPlay a])"
  "released_at_swap live cs \<Longrightarrow> live_now live cs = None
     \<Longrightarrow> released_at_swap live (cs @ [MainLoad u])"
  "released_at_swap live cs \<Longrightarrow> live_now live cs = Some v
     \<Longrightarrow> released_at_swap live (cs @ [RevokeObjectURL v, MainLoad u])"
  by (rule released_at_swap_append; simp)+

subsection \<open>The two operations\<close>

lemma in_flight_simps [simp]:
  "in_flight (s\<lparr>pendingUpdateRef := p\<rparr>) = in_flight s"
  "in_flight (s\<lparr>isSwappingRef := b\<rparr>) = in_flight s"
  "in_flight (s\<lparr>audioRef := a\<rparr>) = in_flight s"
  "in_flight (s\<lparr>objectURLs := us\<rparr>) = in_flight s"
  "in_flight (s\<lparr>calls := cs\<rparr>) = in_flight s"
  "in_flight (s\<lparr>loaderRef := Some l\<rparr>) = canplaythrough l"
  by (simp_all add: in_flight_def)

lemma updateAudioSource_busy:
  "isSwappingRef s \<Longrightarrow> updateAudioSource file s = s\<lparr>pendingUpdateRef := Some file\<rparr>"
  by (simp add: updateAudioSource_def)

lemma updateAudioSource_idle:
  assumes "\<not> isSwappingRef s" "audioRef s = Some mainAudio" "loaderRef s = Some loaderAudio"
  shows "updateAudioSource file s =
     s\<lparr>isSwappingRef := True,
       objectURLs := objectURLs s @ [\<lparr>parts = bytes file, blob_type = audioType (type file)\<rparr>],
       loaderRef := Some (loaderAudio\<lparr>src := Some (length (objectURLs s)),
          currentTime := 0, paused := True,
          canplaythrough := canplaythrough loaderAudio @ [length (objectURLs s)]\<rparr>),
       calls := calls s @ [LoaderLoad (length (objectURLs s))]\<rparr>"
  using assms by (simp add: updateAudioSource_def Let_def load_def)

lemma sched_inv_updateAudioSource:
  assumes "sched_inv s"
  shows "sched_inv (updateAudioSource file s)"
proof (cases "isSwappingRef s")
  case True
  with assms show ?thesis
    by (simp add: updateAudioSource_busy sched_inv_def)
next
  case False
  from assms obtain mainAudio loaderAudio where m: "audioRef s = Some mainAudio"
    and l: "loaderRef s = Some loaderAudio"
    by (auto simp add: sched_inv_def)
  from assms False have idle: "canplaythrough loaderAudio = []"
    using l by (simp add: sched_inv_def in_flight_def)
  from assms have fresh: "\<forall>v \<in> set (live_swaps (calls s)). v < length (objectURLs s)"
    by (simp add: sched_inv_def)
  show ?thesis
    using assms False m l idle fresh
    unfolding updateAudioSource_idle [OF False m l] sched_inv_def
    by (simp add: live_swaps_append released_append live_now_append released_at_swap_snoc
        live_now_def less_Suc_eq)
qed

lemma swap_live_eq:
  "swap_live newUrl a mainAudio loaderAudio s =
     s\<lparr>audioRef := Some (mainAudio\<lparr>src := Some newUrl, paused := paused mainAudio \<or> \<not> a\<rparr>),
       calls := calls s
         @ (case src mainAudio of Some old \<Rightarrow> [RevokeObjectURL old] | None \<Rightarrow> [])
         @ [MainLoad newUrl]
         @ (if paused mainAudio then [] else [MainPlay a]),
       isSwappingRef := False,
       loaderRef := Some (loaderAudio
         \<lparr>canplaythrough := removeAll newUrl (canplaythrough loaderAudio)\<rparr>)\<rparr>"
  by (simp add: swap_live_def Let_def load_def play_def)

lemma swap_calls_log:
  "live_swaps (swap_calls live u p a) = [u]"
  "released (swap_calls live u p a) = (case live of Some old \<Rightarrow> [old] | None \<Rightarrow> [])"
  "released_at_swap live (swap_calls live u p a)"
  by (cases live; cases p; simp add: swap_calls_def)+

lemma swap_live_calls:
  "calls (swap_live u a mainAudio loaderAudio s) =
     calls s @ swap_calls (src mainAudio) u (paused mainAudio) a"
  by (simp add: swap_live_eq swap_calls_def)

lemma sched_inv_swap_live:
  assumes inv: "sched_inv s" and fl: "in_flight s = [u]"
    and m: "audioRef s = Some mainAudio" and l: "loaderRef s = Some loaderAudio"
  shows "sched_inv ((swap_live u a mainAudio loaderAudio s)\<lparr>pendingUpdateRef := None\<rparr>)"
proof -
  let ?lives = "live_swaps (calls s)"
  let ?s1 = "swap_live u a mainAudio loaderAudio s"
  have cpt: "canplaythrough loaderAudio = [u]" using fl l by (simp add: in_flight_def)
  have src: "src mainAudio = live_now None (calls s)" using inv m by (auto simp add: sched_inv_def)
  have u: "\<forall>v \<in> set ?lives. v < u" "u < length (objectURLs s)"
    using inv fl by (auto simp add: sched_inv_def)
  have bound: "\<forall>v \<in> set ?lives. v < length (objectURLs s)"
    using inv by (simp add: sched_inv_def)
  have dist: "sorted_wrt (<) ?lives" using inv by (simp add: sched_inv_def)
  have rel: "released (calls s) = butlast ?lives" using inv by (simp add: sched_inv_def)
  have ras: "released_at_swap None (calls s)" using inv by (simp add: sched_inv_def)
  note c = swap_live_calls [of u a mainAudio loaderAudio s]
  have lives': "live_swaps (calls ?s1) = ?lives @ [u]"
    by (simp add: c live_swaps_append swap_calls_log)
  have rel': "released (calls ?s1) = ?lives"
    by (cases "?lives = []")
       (simp_all add: c released_append swap_calls_log src live_now_def rel)
  have ras': "released_at_swap None (calls ?s1)"
    unfolding c using ras
    by (rule released_at_swap_append) (simp add: src [symmetric] swap_calls_log)
  have others: "audioRef ?s1 = Some (mainAudio\<lparr>src := Some u, paused := paused mainAudio \<or> \<not> a\<rparr>)"
    "loaderRef ?s1 = Some (loaderAudio\<lparr>canplaythrough := []\<rparr>)"
    "in_flight ?s1 = []" "\<not> isSwappingRef ?s1" "objectURLs ?s1 = objectURLs s"
    by (simp_all add: swap_live_eq cpt)
  show ?thesis
    using u bound dist
    by (simp add: sched_inv_def lives' rel' ras' others live_now_def sorted_wrt_append)
qed

lemma handleReady_mounted:
  assumes "audioRef s = Some mainAudio" "loaderRef s = Some loaderAudio"
  shows "handleReady u a s =
     (case pendingUpdateRef s of
        Some nextFile \<Rightarrow>
          updateAudioSource nextFile ((swap_live u a mainAudio loaderAudio s)\<lparr>pendingUpdateRef := None\<rparr>)
      | None \<Rightarrow> swap_live u a mainAudio loaderAudio s)"
  using assms by (simp add: handleReady_def Let_def swap_live_eq split: option.splits)

lemma sched_inv_handleReady:
  assumes inv: "sched_inv s" and fl: "in_flight s = [u]"
  shows "sched_inv (handleReady u a s)"
proof -
  from inv obtain mainAudio loaderAudio where m: "audioRef s = Some mainAudio"
    and l: "loaderRef s = Some loaderAudio"
    by (auto simp add: sched_inv_def)
  note sw = sched_inv_swap_live [OF inv fl m l, of a]
  show ?thesis
  proof (cases "pendingUpdateRef s")
    case None
    then have "(swap_live u a mainAudio loaderAudio s)\<lparr>pendingUpdateRef := None\<rparr>
        = swap_live u a mainAudio loaderAudio s"
      by (simp add: swap_live_eq)
    with sw None show ?thesis by (simp add: handleReady_mounted [OF m l])
  next
    case (Some nextFile)
    with sw show ?thesis
      by (simp add: handleReady_mounted [OF m l] sched_inv_updateAudioSource)
  qed
qed

lemma dispatch_idle: "in_flight s = [] \<Longrightarrow> dispatch_canplaythrough a s = s"
  by (simp add: dispatch_canplaythrough_def)

lemma dispatch_single: "in_flight s = [u] \<Longrightarrow> dispatch_canplaythrough a s = handleReady u a s"
  by (simp add: dispatch_canplaythrough_def)

lemma in_flight_cases:
  assumes "sched_inv s"
  obtains "in_flight s = []" | u where "in_flight s = [u]"
proof -
  from assms have "length (in_flight s) \<le> 1" by (simp add: sched_inv_def)
  then show thesis using that by (cases "in_flight s") auto
qed

lemma sched_inv_dispatch:
  assumes "sched_inv s"
  shows "sched_inv (dispatch_canplaythrough a s)"
  using assms
  by (rule in_flight_cases) (simp_all add: dispatch_idle dispatch_single sched_inv_handleReady assms)

lemma sched_inv_step:
  assumes "sched_inv s"
  shows "sched_inv (step e s)"
proof (cases e)
  case (Present f)
  with assms show ?thesis by (simp add: sched_inv_updateAudioSource)
next
  case (CanPlayThrough a)
  with assms show ?thesis by (simp add: sched_inv_dispatch)
next
  case (Controls t p)
  with assms show ?thesis by (auto simp add: sched_inv_def)
qed

lemma sched_inv_run:
  assumes "sched_inv s"
  shows "sched_inv (run es s)"
  using assms unfolding run_def
  by (induction es arbitrary: s) (simp_all add: sched_inv_step)

lemma sched_inv_mounted: "sched_inv mounted"
  by (simp add: sched_inv_def mounted_def fresh_audio_def in_flight_def live_now_def)

subsection \<open>Runs\<close>

lemma run_append: "run (es @ es') s = run es' (run es s)"
  by (simp add: run_def)

lemma run_presents_busy:
  assumes "isSwappingRef s" "fs \<noteq> []"
  shows "run (map Present fs) s = s\<lparr>pendingUpdateRef := Some (last fs)\<rparr>"
  using assms
proof (induction fs arbitrary: s)
  case Nil
  then show ?case by simp
next
  case (Cons f fs)
  show ?case
  proof (cases "fs = []")
    case True
    with Cons.prems show ?thesis by (simp add: run_def updateAudioSource_busy)
  next
    case False
    have "run (map Present (f # fs)) s = run (map Present fs) (s\<lparr>pendingUpdateRef := Some f\<rparr>)"
      using Cons.prems by (simp add: run_def updateAudioSource_busy)
    also have "\<dots> = s\<lparr>pendingUpdateRef := Some f\<rparr>\<lparr>pendingUpdateRef := Some (last fs)\<rparr>"
      using Cons.prems False by (intro Cons.IH) simp_all
    finally show ?thesis using False by simp
  qed
qed

lemma distinct_last_butlast:
  assumes "distinct xs" "xs \<noteq> []"
  shows "last xs \<notin> set (butlast xs)"
proof -
  have "distinct (butlast xs @ [last xs])" using assms by simp
  then show ?thesis by simp
qed

lemma run_controls:
  assumes "controls_only cs" "audioRef s = Some mainAudio"
  shows "\<exists>t p. run cs s = s\<lparr>audioRef := Some (mainAudio\<lparr>currentTime := t, paused := p\<rparr>)\<rparr>"
  using assms
proof (induction cs arbitrary: s mainAudio rule: controls_only.induct)
  case 1
  have "run [] s = s\<lparr>audioRef := Some (mainAudio\<lparr>currentTime := currentTime mainAudio,
      paused := paused mainAudio\<rparr>)\<rparr>"
    using 1 by (simp add: run_def)
  then show ?case by blast
next
  case (2 t p es)
  let ?m = "mainAudio\<lparr>currentTime := t, paused := p\<rparr>"
  let ?s = "s\<lparr>audioRef := Some ?m\<rparr>"
  have st: "step (Controls t p) s = ?s" using 2 by simp
  from 2 have "\<exists>t' p'. run es ?s = ?s\<lparr>audioRef := Some (?m\<lparr>currentTime := t', paused := p'\<rparr>)\<rparr>"
    by (intro "2.IH") simp_all
  then obtain t' p' where "run es ?s = ?s\<lparr>audioRef := Some (?m\<lparr>currentTime := t', paused := p'\<rparr>)\<rparr>"
    by blast
  then have "run (Controls t p # es) s =
      s\<lparr>audioRef := Some (mainAudio\<lparr>currentTime := t', paused := p'\<rparr>)\<rparr>"
    using st by (simp add: run_def)
  then show ?case by blast
qed simp_all

subsection \<open>Claims about the scheduler\<close>

text \<open>
  C1.  Start from an idle scheduler that satisfies the invariant (any idle state the
  mounted component can reach).  Present \<open>r1\<close>, then \<open>r2\<close> while the preload of
  \<open>r1\<close> is in flight, then let the loader report \<open>canplaythrough\<close> twice; in between,
  the visible player's position and play state may change at will.  The second
  \<open>present\<close> leaves the request of \<open>r1\<close> in flight and changes nothing but the
  pending slot.  The first event makes \<open>r1\<close>'s resource live, and only then, after the
  \<open>MainLoad\<close> in the log, starts the preload of \<open>r2\<close>.  The second event makes
  \<open>r2\<close>'s resource live.  Over the run the resources made live are exactly those
  two, \<open>r1\<close>'s first and \<open>r2\<close>'s last; a further event changes nothing; and whatever
  follows, resources go live in the order of their creation, never an older one after
  a newer one.  (Whether the loader ever reports is the browser's business; the
  statement is about what the scheduler does when it reports.)
\<close>

theorem two_presents_two_swaps:
  assumes inv: "sched_inv s0" and idle: "\<not> isSwappingRef s0"
    and main: "audioRef s0 = Some mainAudio"
    and cs: "controls_only cs1" "controls_only cs2" "controls_only cs3"
  shows "let u1 = length (objectURLs s0); u2 = Suc u1;
             s1 = run cs1 (step (Present r1) s0);
             s2 = run cs2 (step (Present r2) s1);
             s3 = run cs3 (step (CanPlayThrough a1) s2);
             s4 = step (CanPlayThrough a2) s3
         in in_flight s1 = [u1]
          \<and> objectURLs s1 ! u1 = \<lparr>parts = bytes r1, blob_type = audioType (type r1)\<rparr>
          \<and> in_flight s2 = [u1] \<and> pendingUpdateRef s2 = Some r2
          \<and> calls s2 = calls s1 \<and> objectURLs s2 = objectURLs s1
          \<and> map_option src (audioRef s2) = Some (src mainAudio)
          \<and> calls s3 = calls s2
               @ (case src mainAudio of Some old \<Rightarrow> [RevokeObjectURL old] | None \<Rightarrow> [])
               @ [MainLoad u1] @ (if main_paused s2 then [] else [MainPlay a1])
               @ [LoaderLoad u2]
          \<and> map_option src (audioRef s3) = Some (Some u1)
          \<and> in_flight s3 = [u2] \<and> pendingUpdateRef s3 = None
          \<and> objectURLs s3 ! u2 = \<lparr>parts = bytes r2, blob_type = audioType (type r2)\<rparr>
          \<and> map_option src (audioRef s4) = Some (Some u2)
          \<and> in_flight s4 = [] \<and> \<not> isSwappingRef s4 \<and> pendingUpdateRef s4 = None
          \<and> live_swaps (drop (length (calls s0)) (calls s4)) = [u1, u2]
          \<and> released (drop (length (calls s1)) (calls s4)) =
               (case src mainAudio of Some old \<Rightarrow> [old] | None \<Rightarrow> []) @ [u1]
          \<and> step (CanPlayThrough a3) s4 = s4
          \<and> (\<forall>es. sorted_wrt (<) (live_swaps (calls (run es s4))))"
proof -
  from inv obtain loaderAudio where loader: "loaderRef s0 = Some loaderAudio"
    by (auto simp add: sched_inv_def)
  from inv idle loader have cpt: "canplaythrough loaderAudio = []"
    by (simp add: sched_inv_def in_flight_def)
  from inv idle have pend: "pendingUpdateRef s0 = None"
    by (auto simp add: sched_inv_def)
  define u1 where "u1 = length (objectURLs s0)"
  define b1 where "b1 = \<lparr>parts = bytes r1, blob_type = audioType (type r1)\<rparr>"
  define b2 where "b2 = \<lparr>parts = bytes r2, blob_type = audioType (type r2)\<rparr>"
  define l1 where "l1 = loaderAudio\<lparr>src := Some u1, currentTime := 0, paused := True,
      canplaythrough := [u1]\<rparr>"
  define s1' where "s1' = s0\<lparr>isSwappingRef := True, objectURLs := objectURLs s0 @ [b1],
      loaderRef := Some l1, calls := calls s0 @ [LoaderLoad u1]\<rparr>"
  have e1: "step (Present r1) s0 = s1'"
    by (simp add: updateAudioSource_idle [OF idle main loader] s1'_def l1_def b1_def u1_def cpt)
  have "audioRef s1' = Some mainAudio" by (simp add: s1'_def main)
  from run_controls [OF cs(1) this] obtain t1 p1
    where r1: "run cs1 s1' = s1'\<lparr>audioRef := Some (mainAudio\<lparr>currentTime := t1, paused := p1\<rparr>)\<rparr>"
    by blast
  define mA where "mA = mainAudio\<lparr>currentTime := t1, paused := p1\<rparr>"
  define s1 where "s1 = s1'\<lparr>audioRef := Some mA\<rparr>"
  have e1': "run cs1 (step (Present r1) s0) = s1" unfolding e1 r1 by (simp add: s1_def mA_def)
  define s2' where "s2' = s1\<lparr>pendingUpdateRef := Some r2\<rparr>"
  have e2: "step (Present r2) s1 = s2'"
    by (simp add: updateAudioSource_busy s1_def s1'_def s2'_def)
  have "audioRef s2' = Some mA" by (simp add: s2'_def s1_def)
  from run_controls [OF cs(2) this] obtain t2 p2
    where r2: "run cs2 s2' = s2'\<lparr>audioRef := Some (mA\<lparr>currentTime := t2, paused := p2\<rparr>)\<rparr>"
    by blast
  define mB where "mB = mainAudio\<lparr>currentTime := t2, paused := p2\<rparr>"
  define s2 where "s2 = s2'\<lparr>audioRef := Some mB\<rparr>"
  have e2': "run cs2 (step (Present r2) s1) = s2" unfolding e2 r2 by (simp add: s2_def mB_def mA_def)
  have fl2: "in_flight s2 = [u1]" by (simp add: s2_def s2'_def s1_def s1'_def l1_def)
  have m2: "audioRef s2 = Some mB" "loaderRef s2 = Some l1" "pendingUpdateRef s2 = Some r2"
    by (simp_all add: s2_def s2'_def s1_def s1'_def)
  define blk1 where "blk1 = swap_calls (src mainAudio) u1 p2 a1"
  define m1 where "m1 = mB\<lparr>src := Some u1, paused := p2 \<or> \<not> a1\<rparr>"
  define l2 where "l2 = l1\<lparr>src := Some (Suc u1), canplaythrough := [Suc u1]\<rparr>"
  define s3' where "s3' = s0\<lparr>isSwappingRef := True, objectURLs := objectURLs s0 @ [b1, b2],
      audioRef := Some m1, loaderRef := Some l2,
      calls := calls s0 @ [LoaderLoad u1] @ blk1 @ [LoaderLoad (Suc u1)]\<rparr>"
  have e3: "step (CanPlayThrough a1) s2 = s3'"
    unfolding step.simps dispatch_single [OF fl2] handleReady_mounted [OF m2(1,2)] m2(3)
    by (simp add: swap_live_eq updateAudioSource_def Let_def load_def s2_def s2'_def s1_def
        s1'_def s3'_def l1_def l2_def m1_def mB_def b2_def blk1_def swap_calls_def u1_def pend)
  have "audioRef s3' = Some m1" by (simp add: s3'_def)
  from run_controls [OF cs(3) this] obtain t3 p3
    where r3: "run cs3 s3' = s3'\<lparr>audioRef := Some (m1\<lparr>currentTime := t3, paused := p3\<rparr>)\<rparr>"
    by blast
  define mC where "mC = m1\<lparr>currentTime := t3, paused := p3\<rparr>"
  define s3 where "s3 = s3'\<lparr>audioRef := Some mC\<rparr>"
  have e3': "run cs3 (step (CanPlayThrough a1) s2) = s3" unfolding e3 r3 by (simp add: s3_def mC_def)
  have fl3: "in_flight s3 = [Suc u1]" by (simp add: s3_def s3'_def l2_def)
  have m3: "audioRef s3 = Some mC" "loaderRef s3 = Some l2" "pendingUpdateRef s3 = None"
    by (simp_all add: s3_def s3'_def pend)
  define blk2 where "blk2 = swap_calls (Some u1) (Suc u1) p3 a2"
  define m2 where "m2 = mC\<lparr>src := Some (Suc u1), paused := p3 \<or> \<not> a2\<rparr>"
  define s4 where "s4 = s3\<lparr>isSwappingRef := False, audioRef := Some m2,
      loaderRef := Some (l2\<lparr>canplaythrough := []\<rparr>), calls := calls s3 @ blk2\<rparr>"
  have e4: "step (CanPlayThrough a2) s3 = s4"
    unfolding step.simps dispatch_single [OF fl3] handleReady_mounted [OF m3(1,2)] m3(3)
    by (simp add: swap_live_eq s4_def s3_def s3'_def l2_def m2_def mC_def m1_def blk2_def
        swap_calls_def)
  have fl4: "in_flight s4 = []" by (simp add: s4_def)
  have e5: "step (CanPlayThrough a3) s4 = s4" by (simp add: dispatch_idle fl4)
  have c4: "calls s4 = calls s0 @ [LoaderLoad u1] @ blk1 @ [LoaderLoad (Suc u1)] @ blk2"
    by (simp add: s4_def s3_def s3'_def)
  have lives: "live_swaps (drop (length (calls s0)) (calls s4)) = [u1, Suc u1]"
    by (simp add: c4 live_swaps_append swap_calls_log blk1_def blk2_def)
  have rels: "released (drop (length (calls s1)) (calls s4)) =
      (case src mainAudio of Some old \<Rightarrow> [old] | None \<Rightarrow> []) @ [u1]"
    by (simp add: c4 s1_def s1'_def released_append swap_calls_log blk1_def blk2_def)
  have mp: "main_paused s2 = p2" by (simp add: main_paused_def m2(1) mB_def)
  have c3: "calls s3 = calls s2
               @ (case src mainAudio of Some old \<Rightarrow> [RevokeObjectURL old] | None \<Rightarrow> [])
               @ [MainLoad u1] @ (if main_paused s2 then [] else [MainPlay a1])
               @ [LoaderLoad (Suc u1)]"
    unfolding mp
    by (simp add: s3_def s3'_def s2_def s2'_def s1_def s1'_def blk1_def swap_calls_def)
  have rest: "in_flight s1 = [u1]" "objectURLs s1 ! u1 = b1"
    "pendingUpdateRef s2 = Some r2" "calls s2 = calls s1"
    "objectURLs s2 = objectURLs s1" "map_option src (audioRef s2) = Some (src mainAudio)"
    "map_option src (audioRef s3) = Some (Some u1)" "objectURLs s3 ! Suc u1 = b2"
    "map_option src (audioRef s4) = Some (Some (Suc u1))"
    "\<not> isSwappingRef s4" "pendingUpdateRef s4 = None"
    by (simp_all add: s1_def s1'_def s2_def s2'_def s3_def s3'_def s4_def l1_def m1_def
        m2_def mB_def mC_def u1_def nth_append pend)
  have "sched_inv s1" unfolding e1' [symmetric]
    by (intro sched_inv_run sched_inv_step inv)
  then have "sched_inv s2" unfolding e2' [symmetric]
    by (intro sched_inv_run sched_inv_step)
  then have "sched_inv s3" unfolding e3' [symmetric]
    by (intro sched_inv_run sched_inv_step)
  then have "sched_inv s4" unfolding e4 [symmetric]
    by (intro sched_inv_step)
  then have "sched_inv (run es s4)" for es by (rule sched_inv_run)
  then have order: "\<forall>es. sorted_wrt (<) (live_swaps (calls (run es s4)))"
    by (simp add: sched_inv_def)
  show ?thesis
    unfolding Let_def u1_def [symmetric] b1_def [symmetric] b2_def [symmetric]
      e1' e2' e3' e4 e5
    using fl2 fl3 fl4 m3(3) lives rels c3 rest order by simp
qed

theorem two_presents_two_swaps_witness:
  "live_swaps (calls (step (CanPlayThrough True) (run [Controls 9 False]
      (step (CanPlayThrough False)
        (run [] (step (Present \<lparr>bytes = [2], type = Mpeg\<rparr>)
          (run [Controls 5 False] (step (Present \<lparr>bytes = [1], type = Wav\<rparr>) mounted)))))))) = [0, 1]"
proof -
  have h: "audioRef mounted = Some fresh_audio" "\<not> isSwappingRef mounted"
    by (simp_all add: mounted_def)
  have c: "controls_only [Controls 5 False]" "controls_only []" "controls_only [Controls 9 False]"
    by simp_all
  have z: "length (objectURLs mounted) = 0" "calls mounted = []"
    by (simp_all add: mounted_def)
  from two_presents_two_swaps [OF sched_inv_mounted h(2,1) c, of "\<lparr>bytes = [1], type = Wav\<rparr>"
      "\<lparr>bytes = [2], type = Mpeg\<rparr>" False True True]
  show ?thesis by (simp add: Let_def z)
qed

text \<open>
  C2.  In every state reachable from the mounted component, at most one request is in
  flight.  While one is, \<open>present\<close> only overwrites the pending slot; so after a burst of
  presents the state is the one the last of them alone would have left, and whatever
  happens next cannot depend on, let alone present, a superseded result.
\<close>

theorem at_most_one_in_flight:
  "let s = run es mounted in
     length (in_flight s) \<le> 1
     \<and> (in_flight s \<noteq> [] \<longrightarrow>
          updateAudioSource f s = s\<lparr>pendingUpdateRef := Some f\<rparr>
          \<and> (fs \<noteq> [] \<longrightarrow>
               run (map Present fs) s = s\<lparr>pendingUpdateRef := Some (last fs)\<rparr>
               \<and> run (map Present fs @ es') s = run (Present (last fs) # es') s))"
proof -
  let ?s = "run es mounted"
  have inv: "sched_inv ?s" by (rule sched_inv_run) (rule sched_inv_mounted)
  then have one: "length (in_flight ?s) \<le> 1" by (simp add: sched_inv_def)
  have busy: "isSwappingRef ?s" if "in_flight ?s \<noteq> []"
    using inv that by (simp add: sched_inv_def)
  have burst: "run (map Present fs) ?s = ?s\<lparr>pendingUpdateRef := Some (last fs)\<rparr>"
    if "in_flight ?s \<noteq> []" "fs \<noteq> []"
    using busy that by (simp add: run_presents_busy)
  have single: "run [Present (last fs)] ?s = ?s\<lparr>pendingUpdateRef := Some (last fs)\<rparr>"
    if "in_flight ?s \<noteq> []"
    using busy that by (simp add: run_def updateAudioSource_busy)
  have cont: "run (map Present fs @ es') ?s = run (Present (last fs) # es') ?s"
    if "in_flight ?s \<noteq> []" "fs \<noteq> []"
  proof -
    have "run (map Present fs @ es') ?s = run es' (run (map Present fs) ?s)"
      by (rule run_append)
    also have "\<dots> = run es' (run [Present (last fs)] ?s)"
      using that by (simp add: burst single)
    also have "\<dots> = run ([Present (last fs)] @ es') ?s"
      by (rule run_append [symmetric])
    finally show ?thesis by simp
  qed
  show ?thesis
    unfolding Let_def using one busy burst cont by (simp add: updateAudioSource_busy)
qed

theorem at_most_one_in_flight_witness:
  "in_flight (run [Present \<lparr>bytes = [1], type = Wav\<rparr>] mounted) = [0]
   \<and> run [Present \<lparr>bytes = [2], type = Mpeg\<rparr>, Present \<lparr>bytes = [3], type = Ogg\<rparr>]
        (run [Present \<lparr>bytes = [1], type = Wav\<rparr>] mounted)
      = (run [Present \<lparr>bytes = [1], type = Wav\<rparr>] mounted)
          \<lparr>pendingUpdateRef := Some \<lparr>bytes = [3], type = Ogg\<rparr>\<rparr>"
proof -
  let ?s = "run [Present \<lparr>bytes = [1], type = Wav\<rparr>] mounted"
  have fl: "in_flight ?s = [0]"
    by (simp add: run_def updateAudioSource_def mounted_def fresh_audio_def Let_def load_def
        in_flight_def)
  from at_most_one_in_flight [of "[Present \<lparr>bytes = [1], type = Wav\<rparr>]"
      "\<lparr>bytes = [2], type = Mpeg\<rparr>"
      "[\<lparr>bytes = [2], type = Mpeg\<rparr>, \<lparr>bytes = [3], type = Ogg\<rparr>]" "[]"]
  show ?thesis unfolding Let_def fl by simp
qed

text \<open>
  C3.  When \<open>handleReady\<close> runs for \<open>newUrl\<close>, the visible player ends up bound to
  \<open>newUrl\<close>, at the position it had before (although \<open>load()\<close> reset it in between),
  and it plays afterwards exactly if it played before and \<open>play()\<close> succeeded:
  \<open>play()\<close> is called only if it was playing, and if \<open>play()\<close> is refused the swap is
  complete all the same, with the player paused.  A \<open>canplaythrough\<close> event with that
  one request in flight runs exactly this handler.
\<close>

theorem handleReady_swaps_and_restores:
  assumes "audioRef s = Some mainAudio" and "loaderRef s = Some loaderAudio"
  shows "audioRef (handleReady newUrl a s) =
       Some (mainAudio\<lparr>src := Some newUrl, paused := paused mainAudio \<or> \<not> a\<rparr>)
    \<and> map_option src (audioRef (handleReady newUrl a s)) = Some (Some newUrl)
    \<and> map_option currentTime (audioRef (handleReady newUrl a s)) = Some (currentTime mainAudio)
    \<and> map_option paused (audioRef (handleReady newUrl a s)) = Some (paused mainAudio \<or> \<not> a)
    \<and> (MainPlay a \<in> set (drop (length (calls s)) (calls (handleReady newUrl a s)))
          \<longleftrightarrow> \<not> paused mainAudio)
    \<and> MainLoad newUrl \<in> set (drop (length (calls s)) (calls (handleReady newUrl a s)))
    \<and> (pendingUpdateRef s = None \<longrightarrow> \<not> isSwappingRef (handleReady newUrl a s))
    \<and> (in_flight s = [newUrl] \<longrightarrow> dispatch_canplaythrough a s = handleReady newUrl a s)"
proof -
  let ?s1 = "swap_live newUrl a mainAudio loaderAudio s"
  let ?m' = "mainAudio\<lparr>src := Some newUrl, paused := paused mainAudio \<or> \<not> a\<rparr>"
  let ?blk = "swap_calls (src mainAudio) newUrl (paused mainAudio) a"
  have s1: "audioRef ?s1 = Some ?m'" "calls ?s1 = calls s @ ?blk" "\<not> isSwappingRef ?s1"
    "loaderRef ?s1 = Some (loaderAudio
         \<lparr>canplaythrough := removeAll newUrl (canplaythrough loaderAudio)\<rparr>)"
    by (simp_all add: swap_live_eq swap_calls_def)
  have blk: "MainPlay a \<in> set ?blk \<longleftrightarrow> \<not> paused mainAudio" "MainLoad newUrl \<in> set ?blk"
    by (auto simp add: swap_calls_def split: option.splits)
  show ?thesis
  proof (cases "pendingUpdateRef s")
    case None
    then have h: "handleReady newUrl a s = ?s1"
      by (simp add: handleReady_mounted [OF assms])
    show ?thesis unfolding h s1 using blk None
      by (simp add: dispatch_single h s1)
  next
    case (Some nextFile)
    let ?s2 = "?s1\<lparr>pendingUpdateRef := None\<rparr>"
    have h: "handleReady newUrl a s = updateAudioSource nextFile ?s2"
      using Some by (simp add: handleReady_mounted [OF assms])
    have idle: "\<not> isSwappingRef ?s2" "audioRef ?s2 = Some ?m'"
      "loaderRef ?s2 = Some (loaderAudio
         \<lparr>canplaythrough := removeAll newUrl (canplaythrough loaderAudio)\<rparr>)"
      by (simp_all add: s1)
    have h2: "audioRef (handleReady newUrl a s) = Some ?m'"
      "calls (handleReady newUrl a s) = calls s @ ?blk @ [LoaderLoad (length (objectURLs s))]"
      unfolding h updateAudioSource_idle [OF idle]
      by (simp_all add: s1) (simp add: swap_live_eq)
    show ?thesis unfolding h2 using blk Some
      by (simp add: dispatch_single) 
  qed
qed

theorem handleReady_swaps_and_restores_witness:
  "audioRef (handleReady 1 False
      \<lparr>isSwappingRef = True, pendingUpdateRef = None,
        audioRef = Some \<lparr>src = Some 0, currentTime = 5, paused = False, canplaythrough = []\<rparr>,
        loaderRef = Some \<lparr>src = Some 1, currentTime = 0, paused = True, canplaythrough = [1]\<rparr>,
        objectURLs = [\<lparr>parts = [1], blob_type = ''audio/wav''\<rparr>,
                      \<lparr>parts = [2], blob_type = ''audio/mpeg''\<rparr>],
        calls = [LoaderLoad 0, MainLoad 0, LoaderLoad 1]\<rparr>)
    = Some \<lparr>src = Some 1, currentTime = 5, paused = True, canplaythrough = []\<rparr>"
proof -
  let ?m = "\<lparr>src = Some 0, currentTime = 5, paused = False, canplaythrough = []\<rparr>"
  let ?l = "\<lparr>src = Some 1, currentTime = 0, paused = True, canplaythrough = [1]\<rparr>"
  let ?s = "\<lparr>isSwappingRef = True, pendingUpdateRef = None,
        audioRef = Some ?m, loaderRef = Some ?l,
        objectURLs = [\<lparr>parts = [1], blob_type = ''audio/wav''\<rparr>,
                      \<lparr>parts = [2], blob_type = ''audio/mpeg''\<rparr>],
        calls = [LoaderLoad 0, MainLoad 0, LoaderLoad 1]\<rparr>"
  have h: "audioRef ?s = Some ?m" "loaderRef ?s = Some ?l" by simp_all
  from handleReady_swaps_and_restores [OF h, of 1 False]
  show ?thesis by simp
qed

text \<open>
  C4.  In every state reachable from the mounted component, with \<open>N\<close> resources made
  live so far: the released resources are the first \<open>N - 1\<close> of them, in order, so
  exactly \<open>N - 1\<close> have been released, none twice, and the live one has not; each was
  released in the swap that superseded it, immediately before its successor was bound
  (\<open>released_at_swap\<close>).
\<close>

theorem released_all_but_live:
  "let s = run es mounted; lives = live_swaps (calls s); rel = released (calls s) in
     length rel = length lives - 1
     \<and> rel = butlast lives
     \<and> distinct lives \<and> distinct rel
     \<and> released_at_swap None (calls s)
     \<and> (lives \<noteq> [] \<longrightarrow>
          map_option src (audioRef s) = Some (Some (last lives)) \<and> last lives \<notin> set rel)"
proof -
  let ?s = "run es mounted"
  let ?lives = "live_swaps (calls ?s)"
  have inv: "sched_inv ?s" by (rule sched_inv_run) (rule sched_inv_mounted)
  then have rel: "released (calls ?s) = butlast ?lives"
    and sorted: "sorted_wrt (<) ?lives"
    and ras: "released_at_swap None (calls ?s)"
    by (simp_all add: sched_inv_def)
  from sorted have dist: "distinct ?lives" by (simp add: strict_sorted_iff)
  have live: "map_option src (audioRef ?s) = Some (Some (last ?lives))" if "?lives \<noteq> []"
    using inv that by (auto simp add: sched_inv_def live_now_def)
  have notrel: "last ?lives \<notin> set (butlast ?lives)" if "?lives \<noteq> []"
    using dist that by (rule distinct_last_butlast)
  show ?thesis
    unfolding Let_def rel using dist ras live notrel by (simp add: distinct_butlast)
qed

theorem released_all_but_live_witness:
  "live_swaps (calls (run [Present \<lparr>bytes = [1], type = Wav\<rparr>, CanPlayThrough True,
       Present \<lparr>bytes = [2], type = Mpeg\<rparr>, CanPlayThrough True] mounted)) = [0, 1]
   \<and> released (calls (run [Present \<lparr>bytes = [1], type = Wav\<rparr>, CanPlayThrough True,
       Present \<lparr>bytes = [2], type = Mpeg\<rparr>, CanPlayThrough True] mounted)) = [0]"
proof -
  let ?es = "[Present \<lparr>bytes = [1], type = Wav\<rparr>, CanPlayThrough True,
       Present \<lparr>bytes = [2], type = Mpeg\<rparr>, CanPlayThrough True]"
  have c: "calls (run ?es mounted) =
      [LoaderLoad 0, MainLoad 0, LoaderLoad 1, RevokeObjectURL 0, MainLoad 1]"
    by (simp add: run_def dispatch_canplaythrough_def handleReady_def swap_live_def
        updateAudioSource_def in_flight_def load_def play_def Let_def mounted_def
        fresh_audio_def)
  from released_all_but_live [of ?es]
  show ?thesis unfolding Let_def c by simp
qed

section \<open>Properties of the combiner session and the orchestrator\<close>

text \<open>
  C8.  \<open>combine\<close> fails exactly when the value the engine returned has no \<open>bytes\<close>
  property, and then throws that value; otherwise it returns the engine result's
  \<open>bytes\<close> and \<open>type\<close>.
\<close>

theorem combine_fails_iff_no_bytes:
  "((\<exists>e. combine combiner_combine volumes = Inl e)
       \<longleftrightarrow> \<not> has_property ''bytes'' (combiner_combine volumes))
   \<and> (\<not> has_property ''bytes'' (combiner_combine volumes) \<longrightarrow>
        combine combiner_combine volumes = Inl (combiner_combine volumes))
   \<and> (has_property ''bytes'' (combiner_combine volumes) \<longrightarrow>
        combine combiner_combine volumes =
          Inr \<lparr>bytes = get_property (combiner_combine volumes) ''bytes'',
               type = get_property (combiner_combine volumes) ''type''\<rparr>)"
  by (simp add: combine_def Let_def)

theorem combine_fails_iff_no_bytes_witness:
  "combine (\<lambda>volumes. [''bytes'' \<mapsto> JBytes volumes, ''type'' \<mapsto> JFileType Wav]) [100, 50]
     = Inr \<lparr>bytes = JBytes [100, 50], type = JFileType Wav\<rparr>
   \<and> combine (\<lambda>volumes. [''message'' \<mapsto> JString ''decode failed'']) [100, 50]
     = Inl [''message'' \<mapsto> JString ''decode failed'']"
proof -
  let ?ok = "\<lambda>volumes. [''bytes'' \<mapsto> JBytes volumes, ''type'' \<mapsto> JFileType Wav]"
  let ?bad = "\<lambda>volumes::byte list. [''message'' \<mapsto> JString ''decode failed'']"
  have "has_property ''bytes'' (?ok [100, 50])"
    and "\<not> has_property ''bytes'' (?bad [100, 50])"
    by (simp_all add: has_property_def)
  with combine_fails_iff_no_bytes [of ?ok "[100, 50]"]
    combine_fails_iff_no_bytes [of ?bad "[100, 50]"]
  show ?thesis by (simp add: get_property_def)
qed

text \<open>
  C9.  The claim: on every reset the orchestrator releases the session, calling its
  release exactly once, clears the track list, and releases the live and pending
  playable resources.  The code only forgets the session: no \<open>free()\<close> is sent to the
  worker, no object URL is revoked, and the player keeps its resource.
\<close>

theorem reset_releases_nothing_counterexample:
  "worker_calls (reset
      \<lparr>files = [\<lparr>file_id = ''k3x9q1z'', name = ''a.mp3'', duration = ''00:00:01'', volume = 100\<rparr>],
       audioCombinerRef = Some 0, fileInputRef = Some ''a.mp3'',
       player = run [Present \<lparr>bytes = [1], type = Mpeg\<rparr>, CanPlayThrough True] mounted,
       worker_calls = [Combine 0 [100]]\<rparr>) = [Combine 0 [100]]
   \<and> calls (player (reset
      \<lparr>files = [\<lparr>file_id = ''k3x9q1z'', name = ''a.mp3'', duration = ''00:00:01'', volume = 100\<rparr>],
       audioCombinerRef = Some 0, fileInputRef = Some ''a.mp3'',
       player = run [Present \<lparr>bytes = [1], type = Mpeg\<rparr>, CanPlayThrough True] mounted,
       worker_calls = [Combine 0 [100]]\<rparr>)) = [LoaderLoad 0, MainLoad 0]
   \<and> map_option src (audioRef (player (reset
      \<lparr>files = [\<lparr>file_id = ''k3x9q1z'', name = ''a.mp3'', duration = ''00:00:01'', volume = 100\<rparr>],
       audioCombinerRef = Some 0, fileInputRef = Some ''a.mp3'',
       player = run [Present \<lparr>bytes = [1], type = Mpeg\<rparr>, CanPlayThrough True] mounted,
       worker_calls = [Combine 0 [100]]\<rparr>))) = Some (Some 0)"
  by (simp add: reset_def run_def dispatch_canplaythrough_def handleReady_def swap_live_def
      updateAudioSource_def in_flight_def load_def play_def Let_def mounted_def
      fresh_audio_def)

text \<open>
  C9, amended.  On every reset the orchestrator clears the track list, drops its
  reference to the session without sending it any call, and clears the file input;
  the scheduler, and with it the live and pending resources, stay as they were.
\<close>

theorem reset_clears_and_forgets:
  "files (reset s) = []
   \<and> audioCombinerRef (reset s) = None
   \<and> worker_calls (reset s) = worker_calls s
   \<and> player (reset s) = player s
   \<and> fileInputRef (reset s) = map_option (\<lambda>_. '''') (fileInputRef s)"
  by (simp add: reset_def)

text \<open>
  C10.  Without a session, a volume change of track \<open>i\<close> to \<open>v\<close> rewrites the track
  list only: same length and order, every track keeps its id, name and duration, the
  tracks with id \<open>i\<close> get volume \<open>v\<close> and the others keep theirs; no call goes to the
  worker, so no result ever comes back to be presented, and the scheduler with its
  playback surfaces is unchanged.  After a reset there is no session.
\<close>

theorem updateVolume_without_session:
  assumes "audioCombinerRef s = None"
  shows "updateVolume i v s =
       s\<lparr>files := map (\<lambda>f. if file_id f = i then f\<lparr>volume := v\<rparr> else f) (files s)\<rparr>
    \<and> length (files (updateVolume i v s)) = length (files s)
    \<and> (\<forall>k < length (files s).
         file_id (files (updateVolume i v s) ! k) = file_id (files s ! k)
         \<and> name (files (updateVolume i v s) ! k) = name (files s ! k)
         \<and> duration (files (updateVolume i v s) ! k) = duration (files s ! k)
         \<and> volume (files (updateVolume i v s) ! k) =
              (if file_id (files s ! k) = i then v else volume (files s ! k)))
    \<and> worker_calls (updateVolume i v s) = worker_calls s
    \<and> player (updateVolume i v s) = player s
    \<and> audioCombinerRef (updateVolume i v s) = None
    \<and> fileInputRef (updateVolume i v s) = fileInputRef s
    \<and> audioCombinerRef (reset s') = None
    \<and> updateVolume i v (reset s') = reset s'"
  using assms by (simp add: updateVolume_def Let_def reset_def)

theorem updateVolume_without_session_witness:
  "updateVolume ''b'' 40
     \<lparr>files = [\<lparr>file_id = ''a'', name = ''a.mp3'', duration = ''00:03:10'', volume = 100\<rparr>,
               \<lparr>file_id = ''b'', name = ''b.mp3'', duration = ''00:02:00'', volume = 100\<rparr>],
      audioCombinerRef = None, fileInputRef = Some '''', player = mounted, worker_calls = []\<rparr>
   = \<lparr>files = [\<lparr>file_id = ''a'', name = ''a.mp3'', duration = ''00:03:10'', volume = 100\<rparr>,
               \<lparr>file_id = ''b'', name = ''b.mp3'', duration = ''00:02:00'', volume = 40\<rparr>],
      audioCombinerRef = None, fileInputRef = Some '''', player = mounted, worker_calls = []\<rparr>"
proof -
  let ?s = "\<lparr>files = [\<lparr>file_id = ''a'', name = ''a.mp3'', duration = ''00:03:10'', volume = 100\<rparr>,
               \<lparr>file_id = ''b'', name = ''b.mp3'', duration = ''00:02:00'', volume = 100\<rparr>],
      audioCombinerRef = None, fileInputRef = Some '''', player = mounted, worker_calls = []\<rparr>"
  have h: "audioCombinerRef ?s = None" by simp
  from updateVolume_without_session [OF h, of "''b''" 40]
  show ?thesis by simp
qed

end
